theory Spec2Isabelle
  imports Complex_Main "HOL-Library.Word"
begin

unbundle bit_operations_syntax

section \<open>Values, errors and the array primitives of the toolkit\<close>

text \<open>
  The scripts are Jython (Python 2) drivers over Java float arrays. A sample is modelled as
  a \<^typ>\<open>real\<close>: arithmetic is exact, and the non-finite values of IEEE arithmetic
  (infinities, NaN) are not represented. A Python \<open>int\<close> is an \<^typ>\<open>int\<close>; \<open>/\<close> on
  two Python 2 ints is floor division, which is \<open>div\<close> on \<^typ>\<open>int\<close>. Every raise of the
  source is a value \<open>Inl e\<close> of the result type.
\<close>

datatype error =
    ZeroDivisionError
  | NegativeArraySize
  | IndexError
  | NoSuchArray

text \<open>\<open>zerofloat(n1,n2)\<close>: a fresh array of \<open>n2\<close> rows of \<open>n1\<close> zeros; Java refuses a
  negative dimension.\<close>

definition zerofloat2 :: "int \<Rightarrow> int \<Rightarrow> error + real list list" where
  "zerofloat2 n1 n2 =
     (if n1 < 0 \<or> n2 < 0 then Inl NegativeArraySize
      else Inr (replicate (nat n2) (replicate (nat n1) 0)))"

text \<open>Python indexing of a sequence of length \<open>n\<close>: a negative index counts from the end,
  anything else out of range raises.\<close>

definition pyindex :: "nat \<Rightarrow> int \<Rightarrow> error + nat" where
  "pyindex n i =
     (let j = (if i < 0 then int n + i else i)
      in if 0 \<le> j \<and> j < int n then Inr (nat j) else Inl IndexError)"

text \<open>The assignment \<open>f[i2][i1] = v\<close>.\<close>

definition store2 :: "real list list \<Rightarrow> int \<Rightarrow> int \<Rightarrow> real \<Rightarrow> error + real list list" where
  "store2 f i2 i1 v =
     (case pyindex (length f) i2 of
        Inl e \<Rightarrow> Inl e
      | Inr r \<Rightarrow>
          (case pyindex (length (f ! r)) i1 of
             Inl e \<Rightarrow> Inl e
           | Inr c \<Rightarrow> Inr (f[r := (f ! r)[c := v]])))"

text \<open>\<open>range(m)\<close> for a Python int \<open>m\<close>: empty when \<open>m \<le> 0\<close>.\<close>

definition range :: "int \<Rightarrow> int list" where
  "range m = [0..m - 1]"

section \<open>lss/sos2.py: the grid of unit impulses\<close>

text \<open>
  \<^verbatim>\<open>
  def makeImpulses(n1,n2,k1,k2):
    m1 = n1/k1
    m2 = n2/k2
    j1 = (n1-(m1-1)*k1)/2
    j2 = (n2-(m2-1)*k2)/2
    f = zerofloat(n1,n2)
    for i2 in range(m2):
      for i1 in range(m1):
        f[j2+i2*k2][j1+i1*k1] = 1.0
    return f
  \<close>
  The inner loop writes one row, the outer loop runs it for every row index; a failing
  write ends both.
\<close>

fun makeImpulses_inner :: "int \<Rightarrow> int \<Rightarrow> int \<Rightarrow> int list \<Rightarrow> real list list
    \<Rightarrow> error + real list list" where
  "makeImpulses_inner r j1 k1 [] f = Inr f"
| "makeImpulses_inner r j1 k1 (i1 # is) f =
     (case store2 f r (j1 + i1 * k1) 1 of
        Inl e \<Rightarrow> Inl e
      | Inr f' \<Rightarrow> makeImpulses_inner r j1 k1 is f')"

fun makeImpulses_outer :: "int \<Rightarrow> int \<Rightarrow> int \<Rightarrow> int \<Rightarrow> int \<Rightarrow> int list \<Rightarrow> real list list
    \<Rightarrow> error + real list list" where
  "makeImpulses_outer j2 k2 j1 k1 m1 [] f = Inr f"
| "makeImpulses_outer j2 k2 j1 k1 m1 (i2 # is) f =
     (case makeImpulses_inner (j2 + i2 * k2) j1 k1 (range m1) f of
        Inl e \<Rightarrow> Inl e
      | Inr f' \<Rightarrow> makeImpulses_outer j2 k2 j1 k1 m1 is f')"

definition makeImpulses :: "int \<Rightarrow> int \<Rightarrow> int \<Rightarrow> int \<Rightarrow> error + real list list" where
  "makeImpulses n1 n2 k1 k2 =
     (if k1 = 0 then Inl ZeroDivisionError
      else let m1 = n1 div k1 in
      if k2 = 0 then Inl ZeroDivisionError
      else let m2 = n2 div k2;
               j1 = (n1 - (m1 - 1) * k1) div 2;
               j2 = (n2 - (m2 - 1) * k2) div 2
      in case zerofloat2 n1 n2 of
           Inl e \<Rightarrow> Inl e
         | Inr f \<Rightarrow> makeImpulses_outer j2 k2 j1 k1 m1 (range m2) f)"

section \<open>The store of float arrays\<close>

text \<open>
  Java arrays are objects: a function that is handed an array can overwrite it, and the
  caller sees the change. The store is the list of the arrays allocated so far, an address
  is a position in it, and a new array is appended. \<open>NoSuchArray\<close> stands for an address
  that was never allocated, which no Python expression can produce.
\<close>

type_synonym addr = nat
type_synonym 'a store = "'a list"

definition load :: "'a store \<Rightarrow> addr \<Rightarrow> error + 'a" where
  "load s a = (if a < length s then Inr (s ! a) else Inl NoSuchArray)"

text \<open>A Java loop \<open>for (i=0; i<n; ++i) rz[i] = v[i]\<close> over the \<open>n\<close> computed values:
  it fails when \<open>rz\<close> is shorter, and leaves the entries of \<open>rz\<close> from \<open>n\<close> on untouched.\<close>

definition write_into :: "'a list \<Rightarrow> 'a list \<Rightarrow> error + 'a list" where
  "write_into vs old =
     (if length old < length vs then Inl IndexError else Inr (vs @ drop (length vs) old))"




section \<open>warp/waveletwarpingab.py: normalizeMax\<close>

text \<open>\<open>max(f)\<close> and \<open>min(f)\<close> of a 1-D float array start from \<open>f[0]\<close>, so an empty array
  raises.\<close>

definition amax :: "real list \<Rightarrow> error + real" where
  "amax f = (case f of [] \<Rightarrow> Inl IndexError | x # xs \<Rightarrow> Inr (fold max xs x))"

definition amin :: "real list \<Rightarrow> error + real" where
  "amin f = (case f of [] \<Rightarrow> Inl IndexError | x # xs \<Rightarrow> Inr (fold min xs x))"



text \<open>
  In \<open>normalizeMax\<close> above the arithmetic on the samples is exact. The program computes in
  floating point: the entries of a Java \<open>float[]\<close> are IEEE single-precision numbers and a
  Python float is a double. \<open>round_binary p emin\<close> rounds a real to the nearest number with
  \<open>p\<close> significant bits and exponent at least \<open>emin\<close>, ties to the even significand;
  \<open>to_float\<close> and \<open>to_double\<close> are the roundings to single and double precision, subnormal
  numbers included. A result beyond the largest finite number, an infinity in Java, is not
  represented.
\<close>

definition round_even :: "real \<Rightarrow> int" where
  "round_even y =
     (let n = \<lfloor>y\<rfloor>; r = y - of_int n
      in if r < 1 / 2 then n else if 1 / 2 < r then n + 1 else if even n then n else n + 1)"

definition round_binary :: "nat \<Rightarrow> int \<Rightarrow> real \<Rightarrow> real" where
  "round_binary p emin x =
     (if x = 0 then 0
      else let e = max \<lfloor>log 2 \<bar>x\<bar>\<rfloor> emin; u = 2 powi (e - int p + 1)
           in of_int (round_even (x / u)) * u)"

definition to_double :: "real \<Rightarrow> real" where
  "to_double = round_binary 53 (- 1022)"

definition to_float :: "real \<Rightarrow> real" where
  "to_float = round_binary 24 (- 126)"

text \<open>
  \<open>mul(float ra, float[] rx, float[] rz)\<close> with this arithmetic: the scale handed over by
  Python is narrowed to single precision, and every product \<open>ra*rx[i]\<close> is rounded to
  single precision.
\<close>

definition mul_scalar_into_float :: "real \<Rightarrow> addr \<Rightarrow> addr \<Rightarrow> real list store
    \<Rightarrow> error + real list store" where
  "mul_scalar_into_float ra rx rz s =
     (let ra = to_float ra
      in case load s rx of
        Inl e \<Rightarrow> Inl e
      | Inr xs \<Rightarrow>
          (case load s rz of
             Inl e \<Rightarrow> Inl e
           | Inr zs \<Rightarrow>
               (case write_into (map (\<lambda>x. to_float (ra * x)) xs) zs of
                  Inl e \<Rightarrow> Inl e
                | Inr ws \<Rightarrow> Inr (s[rz := ws]))))"

text \<open>
  \<open>normalizeMax\<close> with this arithmetic. \<open>max\<close>, \<open>min\<close> and \<open>abs\<close> are exact; \<open>1.0/maxf\<close> and
  \<open>-1.0/minf\<close> are divisions of doubles, rounded to double.
\<close>

definition normalizeMax_float :: "addr \<Rightarrow> real list store \<Rightarrow> error + real list store" where
  "normalizeMax_float f s =
     (case load s f of
        Inl e \<Rightarrow> Inl e
      | Inr xs \<Rightarrow>
          (case amax xs of
             Inl e \<Rightarrow> Inl e
           | Inr mx \<Rightarrow>
               (case amin xs of
                  Inl e \<Rightarrow> Inl e
                | Inr mn \<Rightarrow>
                    (let maxf = \<bar>mx\<bar>; minf = \<bar>mn\<bar>
                     in if minf < maxf
                        then (if maxf = 0 then Inl ZeroDivisionError
                              else mul_scalar_into_float (to_double (1 / maxf)) f f s)
                        else (if minf = 0 then Inl ZeroDivisionError
                              else mul_scalar_into_float (to_double (- 1 / minf)) f f s)))))"

section \<open>warp/waveletwarpingab.py: gain\<close>






section \<open>1-D array primitives, the random generator and the interpolator\<close>

text \<open>\<open>zerofloat(n)\<close>, \<open>rampfloat(fa,da,n)\<close> (\<open>rx[i] = fa+da*i\<close>) and the read \<open>xs[i]\<close>.\<close>

definition zerofloat :: "int \<Rightarrow> error + real list" where
  "zerofloat n = (if n < 0 then Inl NegativeArraySize else Inr (replicate (nat n) 0))"

definition rampfloat :: "real \<Rightarrow> real \<Rightarrow> int \<Rightarrow> error + real list" where
  "rampfloat fa da n =
     (if n < 0 then Inl NegativeArraySize
      else Inr (map (\<lambda>i. fa + da * real i) [0..<nat n]))"

definition getitem :: "'a list \<Rightarrow> int \<Rightarrow> error + 'a" where
  "getitem xs i = (case pyindex (length xs) i of Inl e \<Rightarrow> Inl e | Inr k \<Rightarrow> Inr (xs ! k))"

text \<open>A \<open>for\<close> loop over a list of indices, with the loop's variables as the state; a raise
  in the body ends the loop.\<close>

fun for_loop :: "'i list \<Rightarrow> ('i \<Rightarrow> 'st \<Rightarrow> error + 'st) \<Rightarrow> 'st \<Rightarrow> error + 'st" where
  "for_loop [] body st = Inr st"
| "for_loop (i # is) body st =
     (case body i st of Inl e \<Rightarrow> Inl e | Inr st' \<Rightarrow> for_loop is body st')"

text \<open>
  \<open>java.util.Random\<close>, as its documentation defines it: a 48-bit linear congruential
  generator held in a \<open>long\<close>. \<open>Random(seed)\<close> scrambles the seed with the multiplier
  \<open>0x5DEECE66D\<close>; \<open>next(bits)\<close> steps the state (multiplier \<open>0x5DEECE66D\<close>, increment
  \<open>0xB\<close>, modulo \<open>2^48\<close>) and returns its top \<open>bits\<close> bits as an \<open>int\<close>; \<open>nextFloat()\<close> is
  \<open>next(24) / 2^24\<close>. \<open>randfloat(random,n)\<close> fills a new array with \<open>n\<close> draws. The state of
  the generator is passed along explicitly.
\<close>

definition Random :: "64 word \<Rightarrow> 64 word" where
  "Random seed = (seed XOR 25214903917) AND mask 48"

definition next_bits :: "nat \<Rightarrow> 64 word \<Rightarrow> int \<times> 64 word" where
  "next_bits bits s =
     (let s' = (s * 25214903917 + 11) AND mask 48
      in (sint (ucast (drop_bit (48 - bits) s') :: 32 word), s'))"

definition nextFloat :: "64 word \<Rightarrow> real \<times> 64 word" where
  "nextFloat s = (case next_bits 24 s of (k, s') \<Rightarrow> (real_of_int k / 2 ^ 24, s'))"

fun randfloat_draw :: "nat \<Rightarrow> 64 word \<Rightarrow> real list \<times> 64 word" where
  "randfloat_draw 0 s = ([], s)"
| "randfloat_draw (Suc n) s =
     (case nextFloat s of
        (x, s1) \<Rightarrow> (case randfloat_draw n s1 of (xs, s2) \<Rightarrow> (x # xs, s2)))"

definition randfloat :: "64 word \<Rightarrow> int \<Rightarrow> error + real list \<times> 64 word" where
  "randfloat rand n =
     (if n < 0 then Inl NegativeArraySize else Inr (randfloat_draw (nat n) rand))"

text \<open>
  The sinc interpolator is an object of the toolkit made from a maximum error and a
  maximum frequency. Its method \<open>accumulate(xa,ya,nxu,dxu,fxu,yu)\<close>, which adds one
  interpolated sample into the array \<open>yu\<close>, is a parameter of the model: a function of the
  interpolator, the call's arguments and the old contents of \<open>yu\<close> that gives the new
  contents.
\<close>

record SincInterpolator =
  emax :: real
  fmax :: real

definition fromErrorAndFrequency :: "real \<Rightarrow> real \<Rightarrow> SincInterpolator" where
  "fromErrorAndFrequency e f = \<lparr>emax = e, fmax = f\<rparr>"

type_synonym accumulate =
  "SincInterpolator \<Rightarrow> real \<Rightarrow> real \<Rightarrow> int \<Rightarrow> real \<Rightarrow> real \<Rightarrow> real list \<Rightarrow> real list"

section \<open>warp/waveletwarpingab.py: the synthetic warps\<close>

text \<open>
  \<^verbatim>\<open>
  def logupq(r0,r1,nt,ni):
    rand = Random(3)
    umax = nt-1
    us = mul(umax,randfloat(rand,ni));
    rs = pow(mul(sub(randfloat(rand,ni),0.5),2.0),5.0)
    if r0==r1:
      u = rampfloat(0.0,r0,nt)
      def t(u):
        return u/r0
    else:
      a = umax/log(r0/r1)
      b = r0/a
      u = mul(a,log(rampfloat(1.0,b,nt)))
      def t(u):
        return (exp(u/a)-1.0)/b
    p = zerofloat(nt)
    q = zerofloat(nt)
    si = SincInterpolator.fromErrorAndFrequency(0.01,0.45)
    for ji in range(ni):
      ui = us[ji]
      ri = rs[ji]
      ti = t(ui)
      si.accumulate(ti,ri,nt,1.0,0.0,p)
      si.accumulate(ui,ri,nt,1.0,0.0,q)
    return u,p,q
  \<close>
  \<open>r0\<close> and \<open>r1\<close> are floats, \<open>nt\<close> and \<open>ni\<close> Python ints. A Python division by zero
  raises. The fifth power of a possibly negative sample is \<open>x ^ 5\<close>. The logarithm is
  \<^const>\<open>ln\<close>: a non-positive argument, NaN or an infinity in Java, is outside the model.
  The nested function \<open>t\<close> is the second component of the pair that the branch yields.
\<close>

definition logupq :: "accumulate \<Rightarrow> real \<Rightarrow> real \<Rightarrow> int \<Rightarrow> int
    \<Rightarrow> error + real list \<times> real list \<times> real list" where
  "logupq acc r0 r1 nt ni =
     (let rand = Random 3; umax = real_of_int (nt - 1)
      in case randfloat rand ni of
        Inl e \<Rightarrow> Inl e
      | Inr (x1, rand1) \<Rightarrow>
     (let us = map ((*) umax) x1
      in case randfloat rand1 ni of
        Inl e \<Rightarrow> Inl e
      | Inr (x2, rand2) \<Rightarrow>
     (let rs = map (\<lambda>x. x ^ 5) (map (\<lambda>x. x * 2) (map (\<lambda>x. x - 1 / 2) x2))
      in case
        (if r0 = r1 then
           (case rampfloat 0 r0 nt of
              Inl e \<Rightarrow> Inl e
            | Inr u \<Rightarrow>
                Inr (u, \<lambda>v. if r0 = 0 then Inl ZeroDivisionError else Inr (v / r0)))
         else if r1 = 0 then Inl ZeroDivisionError
         else if ln (r0 / r1) = 0 then Inl ZeroDivisionError
         else let a = umax / ln (r0 / r1)
           in if a = 0 then Inl ZeroDivisionError
           else let b = r0 / a
           in (case rampfloat 1 b nt of
                 Inl e \<Rightarrow> Inl e
               | Inr ramp \<Rightarrow>
                   Inr (map ((*) a) (map ln ramp),
                        \<lambda>v. if b = 0 then Inl ZeroDivisionError
                            else Inr ((exp (v / a) - 1) / b))))
      of
        Inl e \<Rightarrow> Inl e
      | Inr (u, t) \<Rightarrow>
     (case zerofloat nt of
        Inl e \<Rightarrow> Inl e
      | Inr p \<Rightarrow>
     (case zerofloat nt of
        Inl e \<Rightarrow> Inl e
      | Inr q \<Rightarrow>
     (let si = fromErrorAndFrequency (1 / 100) (45 / 100)
      in case for_loop (range ni)
             (\<lambda>ji (p, q).
                case getitem us ji of
                  Inl e \<Rightarrow> Inl e
                | Inr ui \<Rightarrow>
               (case getitem rs ji of
                  Inl e \<Rightarrow> Inl e
                | Inr ri \<Rightarrow>
               (case t ui of
                  Inl e \<Rightarrow> Inl e
                | Inr ti \<Rightarrow>
                    Inr (acc si ti ri nt 1 0 p, acc si ui ri nt 1 0 q))))
             (p, q) of
        Inl e \<Rightarrow> Inl e
      | Inr (p', q') \<Rightarrow> Inr (u, p', q')))))))"

text \<open>
  \<open>logupq\<close> above passes the state of its generator along as a value. In the program a
  generator is an object: \<open>Random(3)\<close> allocates one, \<open>randfloat(rand,n)\<close> advances the one it
  is given, and other generators may exist when \<open>logupq\<close> is called. Here the generators
  are a store, like that of the arrays: \<open>new_Random\<close> appends a generator and returns its
  address, \<open>randfloat_obj\<close> draws from the generator at an address and writes its new state
  back. \<open>logupq_heap\<close> is \<open>logupq\<close> run in such a store; it returns the result of the call,
  or its error, together with the store after the call.
\<close>

definition new_Random :: "64 word \<Rightarrow> 64 word store \<Rightarrow> addr \<times> 64 word store" where
  "new_Random seed g = (length g, g @ [Random seed])"

definition randfloat_obj :: "addr \<Rightarrow> int \<Rightarrow> 64 word store \<Rightarrow> (error + real list) \<times> 64 word store" where
  "randfloat_obj rand n g =
     (if n < 0 then (Inl NegativeArraySize, g)
      else case load g rand of
        Inl e \<Rightarrow> (Inl e, g)
      | Inr st \<Rightarrow> (case randfloat_draw (nat n) st of (xs, st') \<Rightarrow> (Inr xs, g[rand := st'])))"

definition logupq_heap :: "accumulate \<Rightarrow> real \<Rightarrow> real \<Rightarrow> int \<Rightarrow> int \<Rightarrow> 64 word store
    \<Rightarrow> (error + real list \<times> real list \<times> real list) \<times> 64 word store" where
  "logupq_heap acc r0 r1 nt ni g =
     (case new_Random 3 g of (rand, g0) \<Rightarrow>
     (let umax = real_of_int (nt - 1)
      in case randfloat_obj rand ni g0 of
        (Inl e, g1) \<Rightarrow> (Inl e, g1)
      | (Inr x1, g1) \<Rightarrow>
     (let us = map ((*) umax) x1
      in case randfloat_obj rand ni g1 of
        (Inl e, g2) \<Rightarrow> (Inl e, g2)
      | (Inr x2, g2) \<Rightarrow>
     (let rs = map (\<lambda>x. x ^ 5) (map (\<lambda>x. x * 2) (map (\<lambda>x. x - 1 / 2) x2))
      in ((case
        (if r0 = r1 then
           (case rampfloat 0 r0 nt of
              Inl e \<Rightarrow> Inl e
            | Inr u \<Rightarrow>
                Inr (u, \<lambda>v. if r0 = 0 then Inl ZeroDivisionError else Inr (v / r0)))
         else if r1 = 0 then Inl ZeroDivisionError
         else if ln (r0 / r1) = 0 then Inl ZeroDivisionError
         else let a = umax / ln (r0 / r1)
           in if a = 0 then Inl ZeroDivisionError
           else let b = r0 / a
           in (case rampfloat 1 b nt of
                 Inl e \<Rightarrow> Inl e
               | Inr ramp \<Rightarrow>
                   Inr (map ((*) a) (map ln ramp),
                        \<lambda>v. if b = 0 then Inl ZeroDivisionError
                            else Inr ((exp (v / a) - 1) / b))))
      of
        Inl e \<Rightarrow> Inl e
      | Inr (u, t) \<Rightarrow>
     (case zerofloat nt of
        Inl e \<Rightarrow> Inl e
      | Inr p \<Rightarrow>
     (case zerofloat nt of
        Inl e \<Rightarrow> Inl e
      | Inr q \<Rightarrow>
     (let si = fromErrorAndFrequency (1 / 100) (45 / 100)
      in case for_loop (range ni)
             (\<lambda>ji (p, q).
                case getitem us ji of
                  Inl e \<Rightarrow> Inl e
                | Inr ui \<Rightarrow>
               (case getitem rs ji of
                  Inl e \<Rightarrow> Inl e
                | Inr ri \<Rightarrow>
               (case t ui of
                  Inl e \<Rightarrow> Inl e
                | Inr ti \<Rightarrow>
                    Inr (acc si ti ri nt 1 0 p, acc si ui ri nt 1 0 q))))
             (p, q) of
        Inl e \<Rightarrow> Inl e
      | Inr (p', q') \<Rightarrow> Inr (u, p', q'))))), g2)))))"

text \<open>
  \<^verbatim>\<open>
  def logupqOld(r0,r1,nt,ni):
    umax = nt-1
    us = rampfloat(umax/(ni+1),umax/(ni+1),ni)
    if r0==r1: ... else: ...        (as in logupq)
    p = zerofloat(nt)
    q = zerofloat(nt)
    si = SincInterpolator.fromErrorAndFrequency(0.01,0.45)
    for ji in range(ni):
      ui = us[ji]
      ti = t(ui)
      ri = 1.0
      si.accumulate(ti,ri,nt,1.0,0.0,p)
      si.accumulate(ui,ri,nt,1.0,0.0,q)
    return u,p,q
  \<close>
  \<open>umax/(ni+1)\<close> divides two Python ints.
\<close>

definition logupqOld :: "accumulate \<Rightarrow> real \<Rightarrow> real \<Rightarrow> int \<Rightarrow> int
    \<Rightarrow> error + real list \<times> real list \<times> real list" where
  "logupqOld acc r0 r1 nt ni =
     (let umax = nt - 1
      in if ni + 1 = 0 then Inl ZeroDivisionError
      else case rampfloat (real_of_int (umax div (ni + 1)))
                  (real_of_int (umax div (ni + 1))) ni of
        Inl e \<Rightarrow> Inl e
      | Inr us \<Rightarrow>
     (case
        (if r0 = r1 then
           (case rampfloat 0 r0 nt of
              Inl e \<Rightarrow> Inl e
            | Inr u \<Rightarrow>
                Inr (u, \<lambda>v. if r0 = 0 then Inl ZeroDivisionError else Inr (v / r0)))
         else if r1 = 0 then Inl ZeroDivisionError
         else if ln (r0 / r1) = 0 then Inl ZeroDivisionError
         else let a = real_of_int umax / ln (r0 / r1)
           in if a = 0 then Inl ZeroDivisionError
           else let b = r0 / a
           in (case rampfloat 1 b nt of
                 Inl e \<Rightarrow> Inl e
               | Inr ramp \<Rightarrow>
                   Inr (map ((*) a) (map ln ramp),
                        \<lambda>v. if b = 0 then Inl ZeroDivisionError
                            else Inr ((exp (v / a) - 1) / b))))
      of
        Inl e \<Rightarrow> Inl e
      | Inr (u, t) \<Rightarrow>
     (case zerofloat nt of
        Inl e \<Rightarrow> Inl e
      | Inr p \<Rightarrow>
     (case zerofloat nt of
        Inl e \<Rightarrow> Inl e
      | Inr q \<Rightarrow>
     (let si = fromErrorAndFrequency (1 / 100) (45 / 100)
      in case for_loop (range ni)
             (\<lambda>ji (p, q).
                case getitem us ji of
                  Inl e \<Rightarrow> Inl e
                | Inr ui \<Rightarrow>
               (case t ui of
                  Inl e \<Rightarrow> Inl e
                | Inr ti \<Rightarrow>
                    (let ri = 1
                     in Inr (acc si ti ri nt 1 0 p, acc si ui ri nt 1 0 q))))
             (p, q) of
        Inl e \<Rightarrow> Inl e
      | Inr (p', q') \<Rightarrow> Inr (u, p', q'))))))"

text \<open>
  \<^verbatim>\<open>
  def expupq(r0,r1,nt,ni):
    tmax = nt-1
    b = log(r1/r0)/tmax
    a = r0/b
    u = sub(tmax,mul(a,sub(exp(rampfloat(0.0,b,nt)),1.0)))
    ts = rampfloat(tmax/(ni+1),tmax/(ni+1),ni)
    p = zerofloat(nt)
    q = zerofloat(nt)
    si = SincInterpolator.fromErrorAndFrequency(0.01,0.45)
    rj = -1.0
    for ji in range(ni):
      tj = ts[ji]
      tp = ts[ji]
      tq = tmax-a*(exp(b*tp)-1.0)
      rj = -rj
      si.accumulate(tp,rj,nt,1.0,0.0,p)
      si.accumulate(tq,rj,nt,1.0,0.0,q)
    return u,p,q
  \<close>
\<close>

definition expupq :: "accumulate \<Rightarrow> real \<Rightarrow> real \<Rightarrow> int \<Rightarrow> int
    \<Rightarrow> error + real list \<times> real list \<times> real list" where
  "expupq acc r0 r1 nt ni =
     (let tmax = nt - 1
      in if r0 = 0 then Inl ZeroDivisionError
      else if tmax = 0 then Inl ZeroDivisionError
      else let b = ln (r1 / r0) / real_of_int tmax
      in if b = 0 then Inl ZeroDivisionError
      else let a = r0 / b
      in case rampfloat 0 b nt of
        Inl e \<Rightarrow> Inl e
      | Inr ramp \<Rightarrow>
     (let u = map (\<lambda>x. real_of_int tmax - x)
                (map ((*) a) (map (\<lambda>x. x - 1) (map exp ramp)))
      in if ni + 1 = 0 then Inl ZeroDivisionError
      else case rampfloat (real_of_int (tmax div (ni + 1)))
                  (real_of_int (tmax div (ni + 1))) ni of
        Inl e \<Rightarrow> Inl e
      | Inr ts \<Rightarrow>
     (case zerofloat nt of
        Inl e \<Rightarrow> Inl e
      | Inr p \<Rightarrow>
     (case zerofloat nt of
        Inl e \<Rightarrow> Inl e
      | Inr q \<Rightarrow>
     (let si = fromErrorAndFrequency (1 / 100) (45 / 100); rj = - 1
      in case for_loop (range ni)
             (\<lambda>ji (rj, p, q).
                case getitem ts ji of
                  Inl e \<Rightarrow> Inl e
                | Inr tp \<Rightarrow>
                    (let tq = real_of_int tmax - a * (exp (b * tp) - 1); rj = - rj
                     in Inr (rj, acc si tp rj nt 1 0 p, acc si tq rj nt 1 0 q)))
             (rj, p, q) of
        Inl e \<Rightarrow> Inl e
      | Inr (rj', p', q') \<Rightarrow> Inr (u, p', q'))))))"

text \<open>
  \<^verbatim>\<open>
  def nmoupq(r0,r1,nt,ni):
    tmax = nt-1
    a = tmax*tmax*(1.0/(r1*r1)-1.0)
    u = sqrt(add(pow(rampfloat(0,1.0,nt),2.0),a))
    ts = rampfloat(tmax/(ni+1),tmax/(ni+1),ni)
    p = zerofloat(nt)
    q = zerofloat(nt)
    si = SincInterpolator.fromErrorAndFrequency(0.01,0.45)
    rj = -1.0
    for ji in range(ni):
      tj = ts[ji]
      tp = ts[ji]
      tq = sqrt(tp*tp+a)
      rj = -rj
      si.accumulate(tp,rj,nt,1.0,0.0,p)
      si.accumulate(tq,rj,nt,1.0,0.0,q)
    return u,p,q
  \<close>
  The square root of a negative sample, NaN in Java, is outside the model.
\<close>

definition nmoupq :: "accumulate \<Rightarrow> real \<Rightarrow> real \<Rightarrow> int \<Rightarrow> int
    \<Rightarrow> error + real list \<times> real list \<times> real list" where
  "nmoupq acc r0 r1 nt ni =
     (let tmax = nt - 1
      in if r1 * r1 = 0 then Inl ZeroDivisionError
      else let a = real_of_int (tmax * tmax) * (1 / (r1 * r1) - 1)
      in case rampfloat 0 1 nt of
        Inl e \<Rightarrow> Inl e
      | Inr ramp \<Rightarrow>
     (let u = map sqrt (map (\<lambda>x. x + a) (map (\<lambda>x. x ^ 2) ramp))
      in if ni + 1 = 0 then Inl ZeroDivisionError
      else case rampfloat (real_of_int (tmax div (ni + 1)))
                  (real_of_int (tmax div (ni + 1))) ni of
        Inl e \<Rightarrow> Inl e
      | Inr ts \<Rightarrow>
     (case zerofloat nt of
        Inl e \<Rightarrow> Inl e
      | Inr p \<Rightarrow>
     (case zerofloat nt of
        Inl e \<Rightarrow> Inl e
      | Inr q \<Rightarrow>
     (let si = fromErrorAndFrequency (1 / 100) (45 / 100); rj = - 1
      in case for_loop (range ni)
             (\<lambda>ji (rj, p, q).
                case getitem ts ji of
                  Inl e \<Rightarrow> Inl e
                | Inr tp \<Rightarrow>
                    (let tq = sqrt (tp * tp + a); rj = - rj
                     in Inr (rj, acc si tp rj nt 1 0 p, acc si tq rj nt 1 0 q)))
             (rj, p, q) of
        Inl e \<Rightarrow> Inl e
      | Inr (rj', p', q') \<Rightarrow> Inr (u, p', q'))))))"

text \<open>
  The \<open>makeImpulses\<close> of waveletwarpingab.py (the name is taken by the function of
  sos2.py above, hence the suffix):
  \<^verbatim>\<open>
  def makeImpulses(r,nt,ni):
    p = zerofloat(nt)
    q = zerofloat(nt)
    tmax = nt-1
    if r<=1.0:
      ts = rampfloat(tmax/(ni+1),tmax/(ni+1),ni)
    else:
      ts = rampfloat(tmax/(ni+1)/r,tmax/(ni+1)/r,ni)
    si = SincInterpolator.fromErrorAndFrequency(0.01,0.45)
    rj = -1.0
    for ji in range(ni):
      tj = ts[ji]
      tp = ts[ji]
      tq = r*tp
      if r<=1.0:
        tq += (1.0-r)*tmax
      rj = -rj
      si.accumulate(tp,rj,nt,1.0,0.0,p)
      si.accumulate(tq,rj,nt,1.0,0.0,q)
    return p,q
  \<close>
\<close>

definition makeImpulses_warp :: "accumulate \<Rightarrow> real \<Rightarrow> int \<Rightarrow> int
    \<Rightarrow> error + real list \<times> real list" where
  "makeImpulses_warp acc r nt ni =
     (case zerofloat nt of
        Inl e \<Rightarrow> Inl e
      | Inr p \<Rightarrow>
     (case zerofloat nt of
        Inl e \<Rightarrow> Inl e
      | Inr q \<Rightarrow>
     (let tmax = nt - 1
      in if ni + 1 = 0 then Inl ZeroDivisionError
      else case
        (if r \<le> 1 then
           rampfloat (real_of_int (tmax div (ni + 1))) (real_of_int (tmax div (ni + 1))) ni
         else
           rampfloat (real_of_int (tmax div (ni + 1)) / r)
             (real_of_int (tmax div (ni + 1)) / r) ni)
      of
        Inl e \<Rightarrow> Inl e
      | Inr ts \<Rightarrow>
     (let si = fromErrorAndFrequency (1 / 100) (45 / 100); rj = - 1
      in case for_loop (range ni)
             (\<lambda>ji (rj, p, q).
                case getitem ts ji of
                  Inl e \<Rightarrow> Inl e
                | Inr tp \<Rightarrow>
                    (let tq = r * tp;
                         tq = (if r \<le> 1 then tq + (1 - r) * real_of_int tmax else tq);
                         rj = - rj
                     in Inr (rj, acc si tp rj nt 1 0 p, acc si tq rj nt 1 0 q)))
             (rj, p, q) of
        Inl e \<Rightarrow> Inl e
      | Inr (rj', p', q') \<Rightarrow> Inr (p', q')))))"

text \<open>
  A stand-in for \<open>accumulate\<close>, used only to run the generators on concrete inputs: it adds
  \<open>ya\<close> to the sample of \<open>yu\<close> at the index \<open>\<lfloor>xa\<rfloor>\<close>.
\<close>

definition accumulate_floor :: accumulate where
  "accumulate_floor si xa ya nxu dxu fxu yu = yu[nat \<lfloor>xa\<rfloor> := yu ! nat \<lfloor>xa\<rfloor> + ya]"

section \<open>The core operators called by the drivers\<close>

text \<open>
  Modelled from the spec: the convolution operator (\<open>WaveletWarpingAB.convolve\<close>, called
  by the drivers; its source is not among the files). The spec, section 4.2: a Filter is
  a finite sequence of real coefficients plus an integer time-origin offset, and
  \<open>convolve(filter, x)\<close> returns a signal of the same length as \<open>x\<close>, where
  \<open>output[i] = \<Sum>_k filter.coeff[k] * x[i - k + filter.offset]\<close>, zero-padded at
  boundaries.
\<close>

record Filter =
  coeff :: "real list"
  offset :: int

definition sample_at :: "real list \<Rightarrow> int \<Rightarrow> real" where
  "sample_at x i = (if 0 \<le> i \<and> i < int (length x) then x ! nat i else 0)"

definition convolve :: "Filter \<Rightarrow> real list \<Rightarrow> real list" where
  "convolve h x =
     map (\<lambda>i. \<Sum>k\<leftarrow>[0..<length (coeff h)].
                 coeff h ! k * sample_at x (int i - int k + offset h))
       [0..<length x]"

text \<open>The signal \<open>\<alpha>x + \<beta>y\<close>, sample by sample.\<close>

definition lincomb :: "real \<Rightarrow> real list \<Rightarrow> real \<Rightarrow> real list \<Rightarrow> real list" where
  "lincomb \<alpha> x \<beta> y = map2 (\<lambda>a b. \<alpha> * a + \<beta> * b) x y"

text \<open>
  Modelled from the spec: the resampling operator (\<open>WaveletWarpingAB.warp\<close>, called by the
  drivers; its source is not among the files). The spec, section 4.1:
  \<open>resample(warp, x)\<close> produces a signal \<open>y\<close> of the same length as \<open>warp\<close> such that
  \<open>y[i]\<close> approximates \<open>x\<close> evaluated at the fractional position \<open>warp[i]\<close>, using a
  band-limited interpolation kernel. The kernel is the parameter \<open>interp\<close>: \<open>interp x t\<close> is
  the interpolated value of \<open>x\<close> at position \<open>t\<close>, whatever it does at the edges.
\<close>

definition resample :: "(real list \<Rightarrow> real \<Rightarrow> real) \<Rightarrow> real list \<Rightarrow> real list \<Rightarrow> real list" where
  "resample interp warp x = map (\<lambda>t. interp x t) warp"

text \<open>The shape of an \<open>n1\<close> by \<open>n2\<close> array whose entries are all 0 or 1.\<close>

definition impulse_array :: "int \<Rightarrow> int \<Rightarrow> real list list \<Rightarrow> bool" where
  "impulse_array n1 n2 f \<longleftrightarrow>
     length f = nat n2 \<and>
     (\<forall>row \<in> set f. length row = nat n1 \<and> (\<forall>x \<in> set row. x = 0 \<or> x = 1))"

section \<open>Proofs: makeImpulses\<close>

lemma impulse_index_bounds:
  fixes n k i :: int
  assumes "0 < n" "0 < k" "0 \<le> i" "i < n div k"
  shows "0 \<le> (n - (n div k - 1) * k) div 2 + i * k"
    and "(n - (n div k - 1) * k) div 2 + i * k < n"
proof -
  define m where "m = n div k"
  have "n = m * k + n mod k" "0 \<le> n mod k"
    using assms(2) by (simp_all add: m_def)
  then have mk: "m * k \<le> n"
    by linarith
  have m1: "1 \<le> m"
    using assms(3,4) by (simp add: m_def)
  define t where "t = (m - 1) * k"
  have t0: "0 \<le> t"
    using m1 assms(2) by (simp add: t_def)
  have tn: "t + k \<le> n"
    using mk by (simp add: t_def algebra_simps)
  have ik: "i * k \<le> t"
    unfolding t_def using assms(2,4) by (intro mult_right_mono) (simp_all add: m_def)
  have ik0: "0 \<le> i * k"
    using assms(2,3) by simp
  define d where "d = (n - t) div 2"
  have j0: "0 \<le> d"
    using tn assms(2) by (simp add: d_def)
  show "0 \<le> (n - (n div k - 1) * k) div 2 + i * k"
    using j0 ik0 by (simp add: d_def t_def m_def)
  have "2 * d \<le> n - t"
    by (simp add: d_def)
  then have "2 * (d + i * k) < 2 * n"
    using ik tn assms(2) by (simp add: algebra_simps)
  then have "d + i * k < n"
    by simp
  then show "(n - (n div k - 1) * k) div 2 + i * k < n"
    by (simp add: d_def t_def m_def)
qed

lemma pyindex_in_range:
  "0 \<le> i \<Longrightarrow> i < int n \<Longrightarrow> pyindex n i = Inr (nat i)"
  by (simp add: pyindex_def)

lemma store2_impulse:
  assumes "impulse_array n1 n2 f" "0 \<le> i2" "i2 < n2" "0 \<le> i1" "i1 < n1"
  shows "\<exists>f'. store2 f i2 i1 1 = Inr f' \<and> impulse_array n1 n2 f'"
proof -
  have len: "length f = nat n2"
    using assms(1) by (simp add: impulse_array_def)
  have r: "nat i2 < length f"
    using assms(2,3) len by simp
  then have row: "f ! nat i2 \<in> set f"
    by simp
  then have rlen: "length (f ! nat i2) = nat n1"
    using assms(1) by (simp add: impulse_array_def)
  have p2: "pyindex (length f) i2 = Inr (nat i2)"
    using assms(2,3) len by (intro pyindex_in_range) simp_all
  have p1: "pyindex (length (f ! nat i2)) i1 = Inr (nat i1)"
    using assms(4,5) rlen by (intro pyindex_in_range) simp_all
  have st: "store2 f i2 i1 1 = Inr (f[nat i2 := (f ! nat i2)[nat i1 := 1]])"
    by (simp add: store2_def p2 p1)
  have "impulse_array n1 n2 (f[nat i2 := (f ! nat i2)[nat i1 := 1]])"
    unfolding impulse_array_def
  proof (intro conjI ballI)
    show "length (f[nat i2 := (f ! nat i2)[nat i1 := 1]]) = nat n2"
      using len by simp
  next
    fix row assume "row \<in> set (f[nat i2 := (f ! nat i2)[nat i1 := 1]])"
    then have "row \<in> insert ((f ! nat i2)[nat i1 := 1]) (set f)"
      using set_update_subset_insert by fastforce
    then show "length row = nat n1"
      using assms(1) rlen by (auto simp: impulse_array_def)
  next
    fix row x
    assume "row \<in> set (f[nat i2 := (f ! nat i2)[nat i1 := 1]])" and x: "x \<in> set row"
    then have "row \<in> insert ((f ! nat i2)[nat i1 := 1]) (set f)"
      using set_update_subset_insert by fastforce
    then consider "row = (f ! nat i2)[nat i1 := 1]" | "row \<in> set f"
      by blast
    then show "x = 0 \<or> x = 1"
    proof cases
      case 1
      then have "x \<in> insert 1 (set (f ! nat i2))"
        using x set_update_subset_insert by fastforce
      then show ?thesis
        using assms(1) row by (auto simp: impulse_array_def)
    next
      case 2
      then show ?thesis
        using assms(1) x by (auto simp: impulse_array_def)
    qed
  qed
  then show ?thesis
    using st by simp
qed

lemma makeImpulses_inner_ok:
  assumes "0 \<le> r" "r < n2"
    and "\<forall>i \<in> set is. 0 \<le> j1 + i * k1 \<and> j1 + i * k1 < n1"
    and "impulse_array n1 n2 f"
  shows "\<exists>f'. makeImpulses_inner r j1 k1 is f = Inr f' \<and> impulse_array n1 n2 f'"
  using assms(3,4)
proof (induction "is" arbitrary: f)
  case Nil
  then show ?case by simp
next
  case (Cons i "is")
  from Cons.prems have "0 \<le> j1 + i * k1" "j1 + i * k1 < n1"
    by simp_all
  with store2_impulse [OF Cons.prems(2) assms(1,2)]
  obtain f1 where f1: "store2 f r (j1 + i * k1) 1 = Inr f1" "impulse_array n1 n2 f1"
    by blast
  from Cons.prems(1) have "\<forall>i \<in> set is. 0 \<le> j1 + i * k1 \<and> j1 + i * k1 < n1"
    by simp
  from Cons.IH [OF this f1(2)] show ?case
    by (simp add: f1(1))
qed

lemma makeImpulses_outer_ok:
  assumes "\<forall>i \<in> set (range m1). 0 \<le> j1 + i * k1 \<and> j1 + i * k1 < n1"
    and "\<forall>i \<in> set is. 0 \<le> j2 + i * k2 \<and> j2 + i * k2 < n2"
    and "impulse_array n1 n2 f"
  shows "\<exists>f'. makeImpulses_outer j2 k2 j1 k1 m1 is f = Inr f' \<and> impulse_array n1 n2 f'"
  using assms(2,3)
proof (induction "is" arbitrary: f)
  case Nil
  then show ?case by simp
next
  case (Cons i "is")
  from Cons.prems have "0 \<le> j2 + i * k2" "j2 + i * k2 < n2"
    by simp_all
  from makeImpulses_inner_ok [OF this assms(1) Cons.prems(2)]
  obtain f1 where f1: "makeImpulses_inner (j2 + i * k2) j1 k1 (range m1) f = Inr f1"
      "impulse_array n1 n2 f1"
    by blast
  from Cons.prems(1) have "\<forall>i \<in> set is. 0 \<le> j2 + i * k2 \<and> j2 + i * k2 < n2"
    by simp
  from Cons.IH [OF this f1(2)] show ?case
    by (simp add: f1(1))
qed

lemma zerofloat2_impulse:
  "0 \<le> n1 \<Longrightarrow> 0 \<le> n2 \<Longrightarrow> impulse_array n1 n2 (replicate (nat n2) (replicate (nat n1) 0))"
  by (simp add: impulse_array_def)

text \<open>
  Claim C9. For all positive \<open>n1\<close>, \<open>n2\<close>, \<open>k1\<close>, \<open>k2\<close>, every index pair that
  \<open>makeImpulses\<close> writes (column \<open>j1+i1*k1\<close> for \<open>i1\<close> in \<open>range(m1)\<close>, row \<open>j2+i2*k2\<close> for
  \<open>i2\<close> in \<open>range(m2)\<close>) lies in \<open>[0,n1) \<times> [0,n2)\<close>, the call returns without an error,
  and the array returned has \<open>n2\<close> rows of \<open>n1\<close> entries, each entry 0 or 1.
\<close>

theorem makeImpulses_in_bounds:
  assumes "0 < n1" "0 < n2" "0 < k1" "0 < k2"
  shows "(\<forall>i1 \<in> set (range (n1 div k1)). \<forall>i2 \<in> set (range (n2 div k2)).
            0 \<le> (n1 - (n1 div k1 - 1) * k1) div 2 + i1 * k1 \<and>
            (n1 - (n1 div k1 - 1) * k1) div 2 + i1 * k1 < n1 \<and>
            0 \<le> (n2 - (n2 div k2 - 1) * k2) div 2 + i2 * k2 \<and>
            (n2 - (n2 div k2 - 1) * k2) div 2 + i2 * k2 < n2) \<and>
         (\<exists>f. makeImpulses n1 n2 k1 k2 = Inr f \<and> impulse_array n1 n2 f)"
proof -
  have b1: "\<forall>i \<in> set (range (n1 div k1)).
      0 \<le> (n1 - (n1 div k1 - 1) * k1) div 2 + i * k1 \<and>
      (n1 - (n1 div k1 - 1) * k1) div 2 + i * k1 < n1"
    using impulse_index_bounds [OF assms(1,3)] by (simp add: range_def)
  have b2: "\<forall>i \<in> set (range (n2 div k2)).
      0 \<le> (n2 - (n2 div k2 - 1) * k2) div 2 + i * k2 \<and>
      (n2 - (n2 div k2 - 1) * k2) div 2 + i * k2 < n2"
    using impulse_index_bounds [OF assms(2,4)] by (simp add: range_def)
  have z: "impulse_array n1 n2 (replicate (nat n2) (replicate (nat n1) 0))"
    using assms(1,2) by (intro zerofloat2_impulse) simp_all
  from makeImpulses_outer_ok [OF b1 b2 z]
  have "\<exists>f. makeImpulses n1 n2 k1 k2 = Inr f \<and> impulse_array n1 n2 f"
    using assms by (simp add: makeImpulses_def zerofloat2_def Let_def)
  with b1 b2 show ?thesis
    by blast
qed

theorem makeImpulses_in_bounds_witness:
  "makeImpulses 5 4 2 3 =
     Inr [[0, 0, 0, 0, 0], [0, 0, 0, 0, 0], [0, 1, 0, 1, 0], [0, 0, 0, 0, 0]] \<and>
   impulse_array 5 4 [[0, 0, 0, 0, 0], [0, 0, 0, 0, 0], [0, 1, 0, 1, 0], [0, 0, 0, 0, 0]]"
proof -
  have e: "makeImpulses 5 4 2 3 =
      Inr [[0, 0, 0, 0, 0], [0, 0, 0, 0, 0], [0, 1, 0, 1, 0], [0, 0, 0, 0, 0]]"
    by (simp add: makeImpulses_def zerofloat2_def range_def upto.simps store2_def
        pyindex_def numeral_eq_Suc)
  from makeImpulses_in_bounds [of 5 4 2 3] e show ?thesis
    by simp
qed

section \<open>Proofs: normalizeMax and gain\<close>

lemma fold_max_Max: "fold max xs (x::real) = Max (set (x # xs))"
  by (rule Max.set_eq_fold [symmetric])

lemma fold_min_Min: "fold min xs (x::real) = Min (set (x # xs))"
  by (rule Min.set_eq_fold [symmetric])

lemma amax_Max: "f \<noteq> [] \<Longrightarrow> amax f = Inr (Max (set f))"
  by (cases f) (simp_all add: amax_def fold_max_Max del: set_simps)

lemma amin_Min: "f \<noteq> [] \<Longrightarrow> amin f = Inr (Min (set f))"
  by (cases f) (simp_all add: amin_def fold_min_Min del: set_simps)

lemma maxabs_eq:
  fixes f :: "real list"
  assumes "f \<noteq> []"
  shows "Max (abs ` set f) = max \<bar>Max (set f)\<bar> \<bar>Min (set f)\<bar>"
proof (rule Max_eqI)
  show "finite (abs ` set f)" by simp
next
  fix y assume "y \<in> abs ` set f"
  then obtain x where x: "x \<in> set f" "y = \<bar>x\<bar>" by blast
  have "Min (set f) \<le> x" "x \<le> Max (set f)"
    using x(1) by simp_all
  then show "y \<le> max \<bar>Max (set f)\<bar> \<bar>Min (set f)\<bar>"
    using x(2) by linarith
next
  have "Max (set f) \<in> set f" "Min (set f) \<in> set f"
    using assms by (simp_all add: Max_in Min_in)
  then show "max \<bar>Max (set f)\<bar> \<bar>Min (set f)\<bar> \<in> abs ` set f"
    by (simp add: max_def)
qed

lemma write_into_same: "length vs = length old \<Longrightarrow> write_into vs old = Inr vs"
  by (simp add: write_into_def)












section \<open>Proofs: normalizeMax in floating point\<close>

lemma powr_powi_Suc: "2 powr (real_of_int e + 1) = (2::real) powi (e + 1)"
  using powr_real_of_int' [of "2::real" "e + 1"] by simp

lemma pow2_floor_log:
  assumes "x \<noteq> 0"
  shows "2 powi \<lfloor>log 2 \<bar>x\<bar>\<rfloor> \<le> \<bar>x\<bar>" and "\<bar>x\<bar> < 2 powi (\<lfloor>log 2 \<bar>x\<bar>\<rfloor> + 1)"
proof -
  have pos: "0 < \<bar>x\<bar>"
    using assms by simp
  have "\<lfloor>log 2 \<bar>x\<bar>\<rfloor> = \<lfloor>log 2 \<bar>x\<bar>\<rfloor>" ..
  then have "2 powr real_of_int \<lfloor>log 2 \<bar>x\<bar>\<rfloor> \<le> \<bar>x\<bar> \<and>
      \<bar>x\<bar> < 2 powr real_of_int (\<lfloor>log 2 \<bar>x\<bar>\<rfloor> + 1)"
    using floor_log_eq_powr_iff [OF pos, of 2 "\<lfloor>log 2 \<bar>x\<bar>\<rfloor>"] by simp
  then show "2 powi \<lfloor>log 2 \<bar>x\<bar>\<rfloor> \<le> \<bar>x\<bar>" and "\<bar>x\<bar> < 2 powi (\<lfloor>log 2 \<bar>x\<bar>\<rfloor> + 1)"
    by (simp_all add: powr_real_of_int' powr_powi_Suc)
qed

lemma floor_log_unique:
  assumes "x \<noteq> 0" "2 powi e \<le> \<bar>x\<bar>" "\<bar>x\<bar> < 2 powi (e + 1)"
  shows "\<lfloor>log 2 \<bar>x\<bar>\<rfloor> = e"
proof -
  have pos: "0 < \<bar>x\<bar>"
    using assms(1) by simp
  show ?thesis
    using assms(2,3) floor_log_eq_powr_iff [OF pos, of 2 e]
    by (simp add: powr_real_of_int' powr_powi_Suc)
qed

lemma round_even_error: "\<bar>of_int (round_even t) - t\<bar> \<le> 1 / 2"
proof -
  have "of_int \<lfloor>t\<rfloor> \<le> t" "t < of_int \<lfloor>t\<rfloor> + 1"
    by linarith+
  then show ?thesis
    by (auto simp: round_even_def Let_def)
qed

lemma round_binary_error:
  "\<bar>round_binary p emin x - x\<bar> \<le> \<bar>x\<bar> / 2 ^ p + 2 powi (emin - int p)"
proof (cases "x = 0")
  case True
  then show ?thesis by (simp add: round_binary_def)
next
  case False
  define e0 where "e0 = \<lfloor>log 2 \<bar>x\<bar>\<rfloor>"
  define e where "e = max e0 emin"
  define u :: real where "u = 2 powi (e - int p + 1)"
  have u: "0 < u"
    by (simp add: u_def)
  have rb: "round_binary p emin x = of_int (round_even (x / u)) * u"
    using False by (simp add: round_binary_def Let_def e0_def e_def u_def)
  have "of_int (round_even (x / u)) * u - x = (of_int (round_even (x / u)) - x / u) * u"
    using u by (simp add: field_simps)
  then have "\<bar>of_int (round_even (x / u)) * u - x\<bar> = \<bar>of_int (round_even (x / u)) - x / u\<bar> * u"
    using u by (simp add: abs_mult)
  also have "\<dots> \<le> 1 / 2 * u"
    using u round_even_error [of "x / u"] by (intro mult_right_mono) simp_all
  also have "1 / 2 * u = 2 powi (e - int p)"
    by (simp add: u_def power_int_add)
  finally have err: "\<bar>round_binary p emin x - x\<bar> \<le> 2 powi (e - int p)"
    by (simp add: rb)
  have "(2::real) powi (e - int p) \<le> \<bar>x\<bar> / 2 ^ p + 2 powi (emin - int p)"
  proof (cases "emin \<le> e0")
    case True
    then have "e = e0" by (simp add: e_def)
    then have "(2::real) powi (e - int p) = 2 powi e0 / 2 ^ p"
      by (simp add: power_int_diff)
    also have "\<dots> \<le> \<bar>x\<bar> / 2 ^ p"
      using pow2_floor_log(1) [OF False] by (simp add: e0_def divide_right_mono)
    finally show ?thesis
      using zero_less_power_int [of "2::real" "emin - int p"] by linarith
  next
    case False
    then have "e = emin" by (simp add: e_def)
    moreover have "0 \<le> \<bar>x\<bar> / 2 ^ p" by simp
    ultimately show ?thesis by simp
  qed
  with err show ?thesis by linarith
qed

lemma round_binary_eval:
  assumes "x \<noteq> 0" "2 powi e \<le> \<bar>x\<bar>" "\<bar>x\<bar> < 2 powi (e + 1)"
    and "max e emin - int p + 1 = d" "round_even (x / 2 powi d) = k"
  shows "round_binary p emin x = of_int k * 2 powi d"
  using assms(1,4,5) floor_log_unique [OF assms(1,2,3)]
  by (simp add: round_binary_def Let_def)


lemma to_double_error: "\<bar>to_double z - z\<bar> \<le> \<bar>z\<bar> / 2 ^ 53 + 1 / 2 ^ 1075"
  using round_binary_error [of 53 "- 1022" z] by (simp add: to_double_def)

lemma to_float_error: "\<bar>to_float z - z\<bar> \<le> \<bar>z\<bar> / 2 ^ 24 + 1 / 2 ^ 150"
  using round_binary_error [of 24 "- 126" z] by (simp add: to_float_def)

lemma to_double_41: "to_double (1 / 41) = 3515004587215997 / 144115188075855872"
proof -
  have "round_binary 53 (- 1022) (1 / 41) = of_int 7030009174431994 * 2 powi (- 58)"
    by (rule round_binary_eval [where e = "- 6"]) (simp_all add: round_even_def)
  then show ?thesis
    by (simp add: to_double_def)
qed

lemma to_float_41: "to_float (3515004587215997 / 144115188075855872) = 3273603 / 134217728"
proof -
  have "round_binary 24 (- 126) (3515004587215997 / 144115188075855872) =
      of_int 13094412 * 2 powi (- 29)"
    by (rule round_binary_eval [where e = "- 6"]) (simp_all add: round_even_def)
  then show ?thesis
    by (simp add: to_float_def)
qed

lemma to_float_41_peak: "to_float (3273603 / 134217728 * 41) = 16777215 / 16777216"
proof -
  have "round_binary 24 (- 126) (3273603 / 134217728 * 41) = of_int 16777215 * 2 powi (- 24)"
    by (rule round_binary_eval [where e = "- 1"]) (simp_all add: round_even_def)
  then show ?thesis
    by (simp add: to_float_def)
qed

lemma to_float_41_other: "to_float (3273603 / 134217728 * 1) = 3273603 / 134217728"
proof -
  have "round_binary 24 (- 126) (3273603 / 134217728 * 1) = of_int 13094412 * 2 powi (- 29)"
    by (rule round_binary_eval [where e = "- 6"]) (simp_all add: round_even_def)
  then show ?thesis
    by (simp add: to_float_def)
qed

lemma pow2_consts:
  "(2::real) ^ 22 = 4194304" "(2::real) ^ 24 = 16777216" "(2::real) ^ 53 = 9007199254740992"
  "(2::real) ^ 125 = 42535295865117307932921825928971026432"
  "(2::real) ^ 150 = 1427247692705959881058285969449495136382746624"
  "(2::real) ^ 1075 = 404804506614621236704990693437834614099113299528284236713802716054860679135990693783920767402874248990374155728633623822779617474771586953734026799881477019843034848553132722728933815484186432682479535356945490137124014966849385397236206711298319112681620113024717539104666829230461005064372655017292012526615415482186989568"
  by simp_all

lemma float_scale_bounds:
  fixes m s0 :: real
  assumes m: "1 / 2 ^ 125 \<le> m" "m \<le> 2 ^ 125" and s0: "\<bar>s0\<bar> * m = 1"
  defines "sf \<equiv> to_float (to_double s0)"
  shows "\<bar>x\<bar> \<le> m \<Longrightarrow> \<bar>to_float (sf * x)\<bar> \<le> 1 + 1 / 2 ^ 22"
    and "\<bar>x\<bar> = m \<Longrightarrow> 1 - 1 / 2 ^ 22 \<le> \<bar>to_float (sf * x)\<bar>"
proof -
  note m' = m [unfolded pow2_consts]
  have mpos: "0 < m"
    using m'(1) by linarith
  define a where "a = \<bar>s0\<bar>"
  have am: "a * m = 1"
    using s0 by (simp add: a_def)
  have a_eq: "a = 1 / m"
    using am mpos by (simp add: field_simps)
  have a_lo: "1 / 2 ^ 125 \<le> a"
    unfolding a_eq using m(2) mpos by (simp add: field_simps)
  note a_lo' = a_lo [unfolded pow2_consts]
  define D where "D = \<bar>to_double s0\<bar>"
  define S where "S = \<bar>sf\<bar>"
  have "\<bar>to_double s0 - s0\<bar> \<le> a / 2 ^ 53 + 1 / 2 ^ 1075"
    using to_double_error [of s0] by (simp only: a_def)
  then have "\<bar>D - a\<bar> \<le> a / 2 ^ 53 + 1 / 2 ^ 1075"
    unfolding D_def a_def by (rule order_trans [OF abs_triangle_ineq3])
  note D0 = this [unfolded pow2_consts]
  have D1: "\<bar>D - a\<bar> \<le> a / 4503599627370496"
    using D0 a_lo' by linarith
  have D_lo: "1 / 85070591730234615865843651857942052864 \<le> D"
    using D1 a_lo' by linarith
  have "\<bar>sf - to_double s0\<bar> \<le> D / 2 ^ 24 + 1 / 2 ^ 150"
    using to_float_error [of "to_double s0"] by (simp only: sf_def D_def)
  then have "\<bar>S - D\<bar> \<le> D / 2 ^ 24 + 1 / 2 ^ 150"
    unfolding S_def D_def by (rule order_trans [OF abs_triangle_ineq3])
  note S0 = this [unfolded pow2_consts]
  have S1: "\<bar>S - D\<bar> \<le> D / 8388608"
    using S0 D_lo by linarith
  define A where "A = D * m"
  define P where "P = S * m"
  have "\<bar>D - a\<bar> * m \<le> a / 4503599627370496 * m"
    using D1 mpos by (intro mult_right_mono) simp_all
  moreover have "\<bar>D - a\<bar> * m = \<bar>A - 1\<bar>"
  proof -
    have "\<bar>D - a\<bar> * m = \<bar>(D - a) * m\<bar>"
      using mpos by (simp add: abs_mult)
    also have "(D - a) * m = A - 1"
      using am by (simp add: A_def algebra_simps)
    finally show ?thesis .
  qed
  moreover have "a / 4503599627370496 * m = 1 / 4503599627370496"
    using am by simp
  ultimately have A1: "\<bar>A - 1\<bar> \<le> 1 / 4503599627370496"
    by simp
  have "\<bar>S - D\<bar> * m \<le> D / 8388608 * m"
    using S1 mpos by (intro mult_right_mono) simp_all
  moreover have "\<bar>S - D\<bar> * m = \<bar>P - A\<bar>"
  proof -
    have "\<bar>S - D\<bar> * m = \<bar>(S - D) * m\<bar>"
      using mpos by (simp add: abs_mult)
    also have "(S - D) * m = P - A"
      by (simp add: A_def P_def algebra_simps)
    finally show ?thesis .
  qed
  moreover have "D / 8388608 * m = A / 8388608"
    by (simp add: A_def)
  ultimately have P1: "\<bar>P - A\<bar> \<le> A / 8388608"
    by simp
  have P_hi: "P \<le> 1 + 1 / 8388608 + 1 / 2251799813685248"
    using A1 P1 by linarith
  have P_lo: "1 - 1 / 8388608 - 1 / 2251799813685248 \<le> P"
    using A1 P1 by linarith
  have Snn: "0 \<le> S"
    by (simp add: S_def)
  {
    assume x: "\<bar>x\<bar> \<le> m"
    define y where "y = sf * x"
    have "\<bar>y\<bar> = S * \<bar>x\<bar>"
      by (simp add: y_def S_def abs_mult)
    also have "\<dots> \<le> S * m"
      using x Snn by (intro mult_left_mono)
    finally have y: "\<bar>y\<bar> \<le> P"
      by (simp add: P_def)
    note to_float_error [of y, unfolded pow2_consts]
    then have "\<bar>to_float y\<bar> \<le> 1 + 1 / 4194304"
      using y P_hi by linarith
    then show "\<bar>to_float (sf * x)\<bar> \<le> 1 + 1 / 2 ^ 22"
      unfolding y_def pow2_consts .
  }
  {
    assume x: "\<bar>x\<bar> = m"
    define y where "y = sf * x"
    have y: "\<bar>y\<bar> = P"
      using x by (simp add: y_def S_def P_def abs_mult)
    note to_float_error [of y, unfolded pow2_consts]
    then have "1 - 1 / 4194304 \<le> \<bar>to_float y\<bar>"
      using y P_lo by linarith
    then show "1 - 1 / 2 ^ 22 \<le> \<bar>to_float (sf * x)\<bar>"
      unfolding y_def pow2_consts .
  }
qed

lemma mul_scalar_into_float_same:
  "f < length s \<Longrightarrow>
   mul_scalar_into_float c f f s = Inr (s[f := map (\<lambda>x. to_float (to_float c * x)) (s ! f)])"
  by (simp add: mul_scalar_into_float_def load_def write_into_same Let_def)

lemma normalizeMax_float_scaled:
  assumes "f < length s" "s ! f \<noteq> []" "Max (abs ` set (s ! f)) \<noteq> 0"
  shows "\<exists>s0. \<bar>s0\<bar> * Max (abs ` set (s ! f)) = 1 \<and>
     normalizeMax_float f s =
       Inr (s[f := map (\<lambda>x. to_float (to_float (to_double s0) * x)) (s ! f)])"
proof -
  define xs where "xs = s ! f"
  have ne: "xs \<noteq> []"
    using assms(2) by (simp add: xs_def)
  define mx mn where "mx = Max (set xs)" and "mn = Min (set xs)"
  have ma: "Max (abs ` set xs) = max \<bar>mx\<bar> \<bar>mn\<bar>"
    using maxabs_eq [OF ne] by (simp add: mx_def mn_def)
  have pos: "0 < max \<bar>mx\<bar> \<bar>mn\<bar>"
    using assms(3) ma by (simp add: xs_def max_def split: if_splits)
  have ld: "load s f = Inr xs"
    using assms(1) by (simp add: load_def xs_def)
  show ?thesis
  proof (cases "\<bar>mn\<bar> < \<bar>mx\<bar>")
    case True
    then have "normalizeMax_float f s =
        Inr (s[f := map (\<lambda>x. to_float (to_float (to_double (1 / \<bar>mx\<bar>)) * x)) (s ! f)])"
      using pos assms(1) ne
      by (simp add: normalizeMax_float_def ld amax_Max amin_Min mul_scalar_into_float_same
          mx_def [symmetric] mn_def [symmetric] Let_def)
    moreover have "\<bar>1 / \<bar>mx\<bar>\<bar> * Max (abs ` set (s ! f)) = 1"
      using True pos ma by (simp add: xs_def [symmetric] max_def)
    ultimately show ?thesis by blast
  next
    case False
    then have "normalizeMax_float f s =
        Inr (s[f := map (\<lambda>x. to_float (to_float (to_double (- 1 / \<bar>mn\<bar>)) * x)) (s ! f)])"
      using pos assms(1) ne
      by (simp add: normalizeMax_float_def ld amax_Max amin_Min mul_scalar_into_float_same
          mx_def [symmetric] mn_def [symmetric] Let_def max_def)
    moreover have "\<bar>- 1 / \<bar>mn\<bar>\<bar> * Max (abs ` set (s ! f)) = 1"
      using False pos ma by (simp add: xs_def [symmetric] max_def)
    ultimately show ?thesis by blast
  qed
qed

lemma normalizeMax_float_zero:
  assumes "f < length s" "s ! f \<noteq> []" "\<forall>x \<in> set (s ! f). x = 0"
  shows "normalizeMax_float f s = Inl ZeroDivisionError"
proof -
  have "Max (set (s ! f)) \<in> set (s ! f)" "Min (set (s ! f)) \<in> set (s ! f)"
    using assms(2) by (simp_all add: Max_in Min_in)
  then have "Max (set (s ! f)) = 0" "Min (set (s ! f)) = 0"
    using assms(3) by blast+
  then show ?thesis
    using assms(1,2) by (simp add: normalizeMax_float_def load_def amax_Max amin_Min)
qed

text \<open>
  Claim C8, as amended. The claim says that the largest absolute sample is exactly 1
  after \<open>normalizeMax\<close>; with the program's floating-point arithmetic it is not (see the
  counterexample below). What holds: for an array whose largest absolute sample lies
  between \<open>2^-125\<close> and \<open>2^125\<close>, \<open>normalizeMax\<close> succeeds, keeps the length, and leaves a
  largest absolute sample within \<open>2^-22\<close> of 1; for a non-empty array of zeros it raises the
  division by zero.
\<close>

theorem normalizeMax_float_peak:
  assumes "f < length s" "s ! f \<noteq> []"
  shows "(1 / 2 ^ 125 \<le> Max (abs ` set (s ! f)) \<and> Max (abs ` set (s ! f)) \<le> 2 ^ 125 \<longrightarrow>
            (\<exists>s'. normalizeMax_float f s = Inr s' \<and> length (s' ! f) = length (s ! f) \<and>
                  \<bar>Max (abs ` set (s' ! f)) - 1\<bar> \<le> 1 / 2 ^ 22)) \<and>
         ((\<forall>x \<in> set (s ! f). x = 0) \<longrightarrow> normalizeMax_float f s = Inl ZeroDivisionError)"
proof (intro conjI impI)
  define m where "m = Max (abs ` set (s ! f))"
  assume "1 / 2 ^ 125 \<le> Max (abs ` set (s ! f)) \<and> Max (abs ` set (s ! f)) \<le> 2 ^ 125"
  then have m: "1 / 2 ^ 125 \<le> m" "m \<le> 2 ^ 125"
    by (simp_all add: m_def)
  have "(0::real) < 1 / 2 ^ 125"
    by simp
  then have m0: "m \<noteq> 0"
    using m(1) by linarith
  obtain s0 where s0: "\<bar>s0\<bar> * m = 1"
    and nm: "normalizeMax_float f s =
      Inr (s[f := map (\<lambda>x. to_float (to_float (to_double s0) * x)) (s ! f)])"
    using normalizeMax_float_scaled [OF assms] m0 unfolding m_def by blast
  define out where "out = map (\<lambda>x. to_float (to_float (to_double s0) * x)) (s ! f)"
  have ne: "out \<noteq> []"
    using assms(2) by (simp add: out_def)
  have fin: "finite (abs ` set out)" "abs ` set out \<noteq> {}"
    using ne by simp_all
  have hi: "Max (abs ` set out) \<le> 1 + 1 / 2 ^ 22"
  proof (rule Max.boundedI [OF fin])
    fix y assume "y \<in> abs ` set out"
    then obtain x where x: "x \<in> set (s ! f)"
      and y: "y = \<bar>to_float (to_float (to_double s0) * x)\<bar>"
      by (auto simp: out_def)
    have "\<bar>x\<bar> \<le> m"
      unfolding m_def using x by (intro Max_ge) simp_all
    from float_scale_bounds(1) [OF m s0 this] show "y \<le> 1 + 1 / 2 ^ 22"
      by (simp add: y)
  qed
  have "m \<in> abs ` set (s ! f)"
    unfolding m_def using assms(2) by (intro Max_in) simp_all
  then obtain x where x: "x \<in> set (s ! f)" "\<bar>x\<bar> = m"
    by auto
  have "\<bar>to_float (to_float (to_double s0) * x)\<bar> \<in> abs ` set out"
    using x(1) by (auto simp: out_def)
  then have "\<bar>to_float (to_float (to_double s0) * x)\<bar> \<le> Max (abs ` set out)"
    using fin(1) by (intro Max_ge)
  with float_scale_bounds(2) [OF m s0 x(2)] have lo: "1 - 1 / 2 ^ 22 \<le> Max (abs ` set out)"
    by linarith
  have "\<bar>Max (abs ` set out) - 1\<bar> \<le> 1 / 2 ^ 22"
    using hi lo by linarith
  then show "\<exists>s'. normalizeMax_float f s = Inr s' \<and> length (s' ! f) = length (s ! f) \<and>
      \<bar>Max (abs ` set (s' ! f)) - 1\<bar> \<le> 1 / 2 ^ 22"
    using nm assms(1) by (simp add: out_def)
next
  assume "\<forall>x \<in> set (s ! f). x = 0"
  then show "normalizeMax_float f s = Inl ZeroDivisionError"
    using normalizeMax_float_zero [OF assms] by blast
qed

theorem normalizeMax_float_peak_witness:
  "normalizeMax_float 0 [[41, 1]] = Inr [[16777215 / 16777216, 3273603 / 134217728]] \<and>
   \<bar>Max (abs ` set [16777215 / 16777216, 3273603 / 134217728 :: real]) - 1\<bar> \<le> 1 / 2 ^ 22 \<and>
   normalizeMax_float 0 [[0, 0]] = Inl ZeroDivisionError"
proof -
  have h: "(0::nat) < length [[41, 1 :: real]]" "[[41, 1 :: real]] ! 0 \<noteq> []"
      "(0::nat) < length [[0, 0 :: real]]" "[[0, 0 :: real]] ! 0 \<noteq> []"
    by simp_all
  have r: "1 / 2 ^ 125 \<le> Max (abs ` set ([[41, 1 :: real]] ! 0)) \<and>
      Max (abs ` set ([[41, 1 :: real]] ! 0)) \<le> 2 ^ 125"
    by simp
  have z: "\<forall>x \<in> set ([[0, 0 :: real]] ! 0). x = 0"
    by simp
  have a: "normalizeMax_float 0 [[41, 1]] =
      Inr [[16777215 / 16777216, 3273603 / 134217728]]"
    using to_float_41_peak to_float_41_other
    by (simp add: normalizeMax_float_def load_def amax_def amin_def
        mul_scalar_into_float_def write_into_def to_double_41 to_float_41)
  from normalizeMax_float_peak [OF h(1,2)] r a
  have "\<bar>Max (abs ` set [16777215 / 16777216, 3273603 / 134217728 :: real]) - 1\<bar> \<le> 1 / 2 ^ 22"
    by simp
  moreover from normalizeMax_float_peak [OF h(3,4)] z
  have "normalizeMax_float 0 [[0, 0]] = Inl ZeroDivisionError"
    by blast
  ultimately show ?thesis
    using a by blast
qed

text \<open>
  The claim as stated fails: on the array \<open>[41, 1]\<close> the scale is \<open>1/41\<close> rounded to double
  and then to single precision, \<open>13094412 / 2^29\<close>, and its product with 41 rounds to
  \<open>1 - 2^-24\<close>, which is the largest absolute sample left in the array.
\<close>

theorem normalizeMax_float_not_exact:
  "normalizeMax_float 0 [[41, 1]] = Inr [[16777215 / 16777216, 3273603 / 134217728]] \<and>
   Max (abs ` set [16777215 / 16777216, 3273603 / 134217728 :: real]) \<noteq> 1"
  using to_float_41_peak to_float_41_other
  by (simp add: normalizeMax_float_def load_def amax_def amin_def mul_scalar_into_float_def
      write_into_def to_double_41 to_float_41)

section \<open>Proofs: the synthetic warps\<close>

lemma rampfloat_Inr:
  "rampfloat fa da n = Inr xs \<Longrightarrow> 0 \<le> n \<and> xs = map (\<lambda>i. fa + da * real i) [0..<nat n]"
  by (simp add: rampfloat_def split: if_splits)

lemma logupq_u:
  assumes "logupq acc r0 r1 nt ni = Inr (u, p, q)"
  shows "(r0 = r1 \<and> rampfloat 0 r0 nt = Inr u) \<or>
         (r0 \<noteq> r1 \<and> r1 \<noteq> 0 \<and> real_of_int (nt - 1) / ln (r0 / r1) \<noteq> 0 \<and>
          (\<exists>ramp. rampfloat 1 (r0 / (real_of_int (nt - 1) / ln (r0 / r1))) nt = Inr ramp \<and>
                  u = map ((*) (real_of_int (nt - 1) / ln (r0 / r1))) (map ln ramp)))"
  using assms unfolding logupq_def Let_def
  by (auto split: sum.splits if_splits prod.splits)

lemma nmoupq_u:
  assumes "nmoupq acc r0 r1 nt ni = Inr (u, p, q)"
  shows "r1 \<noteq> 0 \<and> (\<exists>ramp. rampfloat 0 1 nt = Inr ramp \<and>
     u = map sqrt (map (\<lambda>x. x + real_of_int ((nt - 1) * (nt - 1)) * (1 / (r1 * r1) - 1))
           (map (\<lambda>x. x ^ 2) ramp)))"
  using assms unfolding nmoupq_def Let_def
  by (auto split: sum.splits if_splits prod.splits)

lemma logupq_monotone:
  assumes "logupq acc r0 r1 nt ni = Inr (u, p, q)" "r1 \<le> r0" "0 < r1" "Suc i < length u"
  shows "u ! i \<le> u ! Suc i"
proof -
  from logupq_u [OF assms(1)] show ?thesis
  proof (elim disjE conjE exE)
    assume "r0 = r1" and r: "rampfloat 0 r0 nt = Inr u"
    from rampfloat_Inr [OF r] have u: "u = map (\<lambda>i. 0 + r0 * real i) [0..<nat nt]"
      by simp
    have "i < nat nt" "Suc i < nat nt"
      using assms(4) u by simp_all
    then have "u ! i = r0 * real i" "u ! Suc i = r0 * real (Suc i)"
      using u by simp_all
    moreover have "r0 * real i \<le> r0 * real (Suc i)"
      using assms(2,3) by (intro mult_left_mono) simp_all
    ultimately show ?thesis by simp
  next
    fix ramp
    define a where "a = real_of_int (nt - 1) / ln (r0 / r1)"
    assume ne: "r0 \<noteq> r1" and a0: "real_of_int (nt - 1) / ln (r0 / r1) \<noteq> 0"
      and r: "rampfloat 1 (r0 / (real_of_int (nt - 1) / ln (r0 / r1))) nt = Inr ramp"
      and u: "u = map ((*) (real_of_int (nt - 1) / ln (r0 / r1))) (map ln ramp)"
    from rampfloat_Inr [OF r] have ramp: "ramp = map (\<lambda>i. 1 + r0 / a * real i) [0..<nat nt]"
      by (simp add: a_def)
    have len: "length u = nat nt"
      using u ramp by simp
    then have nt: "1 \<le> nt"
      using assms(4) by simp
    have "1 < r0 / r1"
      using assms(2,3) ne by simp
    then have "0 < ln (r0 / r1)"
      by simp
    then have "0 \<le> a"
      using nt by (simp add: a_def)
    moreover have "a \<noteq> 0"
      unfolding a_def by (rule a0)
    ultimately have apos: "0 < a"
      by linarith
    have bpos: "0 < r0 / a"
      using apos assms(2,3) by simp
    have i: "i < nat nt" "Suc i < nat nt"
      using assms(4) len by simp_all
    have ui: "u ! i = a * ln (1 + r0 / a * real i)"
      and us: "u ! Suc i = a * ln (1 + r0 / a * real (Suc i))"
      using i u ramp by (simp_all add: a_def)
    have "0 \<le> r0 / a * real i"
      using bpos by (intro mult_nonneg_nonneg) simp_all
    then have "0 < 1 + r0 / a * real i"
      by linarith
    moreover have "r0 / a * real i \<le> r0 / a * real (Suc i)"
      using bpos by (intro mult_left_mono) simp_all
    then have "1 + r0 / a * real i \<le> 1 + r0 / a * real (Suc i)"
      by linarith
    ultimately have "ln (1 + r0 / a * real i) \<le> ln (1 + r0 / a * real (Suc i))"
      by (subst ln_le_cancel_iff) (auto intro: less_le_trans)
    then show ?thesis
      using apos ui us by simp
  qed
qed

lemma nmoupq_monotone:
  assumes "nmoupq acc r0 r1 nt ni = Inr (u, p, q)" "Suc i < length u"
  shows "u ! i \<le> u ! Suc i"
proof -
  define a where "a = real_of_int ((nt - 1) * (nt - 1)) * (1 / (r1 * r1) - 1)"
  from nmoupq_u [OF assms(1)] obtain ramp where r: "rampfloat 0 1 nt = Inr ramp"
    and u: "u = map sqrt (map (\<lambda>x. x + a) (map (\<lambda>x. x ^ 2) ramp))"
    by (auto simp: a_def)
  from rampfloat_Inr [OF r] have ramp: "ramp = map (\<lambda>i. 0 + 1 * real i) [0..<nat nt]"
    by simp
  have i: "i < nat nt" "Suc i < nat nt"
    using assms(2) u ramp by simp_all
  have "u ! i = sqrt ((real i)\<^sup>2 + a)" "u ! Suc i = sqrt ((real (Suc i))\<^sup>2 + a)"
    using i u ramp by simp_all
  moreover have "(real i)\<^sup>2 \<le> (real (Suc i))\<^sup>2"
    by (intro power_mono) simp_all
  ultimately show ?thesis
    by simp
qed

lemma nmoupq_radicand:
  assumes "0 < r1" "r1 \<le> 1"
  shows "0 \<le> real_of_int ((nt - 1) * (nt - 1)) * (1 / (r1 * r1) - 1)"
proof -
  have "r1 * r1 \<le> 1"
    using assms by (simp add: mult_le_one)
  then have "1 \<le> 1 / (r1 * r1)"
    using assms by (simp add: le_divide_eq)
  moreover have "0 \<le> real_of_int ((nt - 1) * (nt - 1))"
    by simp
  ultimately show ?thesis
    by simp
qed

lemma for_loop_Inl:
  "for_loop is body st = Inl e \<Longrightarrow> \<exists>i \<in> set is. \<exists>st'. body i st' = Inl e"
  by (induction "is" arbitrary: st) (auto split: sum.splits)

lemma length_randfloat_draw: "randfloat_draw n s = (xs, s') \<Longrightarrow> length xs = n"
  by (induction n arbitrary: s xs s') (auto split: prod.splits)

lemma range_bounds: "i \<in> set (range n) \<Longrightarrow> 0 \<le> i \<and> i < n"
  by (simp add: range_def)

lemma logupq_returns:
  assumes "0 < r1" "r1 \<le> r0" "2 \<le> nt" "0 \<le> ni"
  shows "\<exists>u p q. logupq acc r0 r1 nt ni = Inr (u, p, q)"
proof -
  have ln0: "r0 \<noteq> r1 \<Longrightarrow> ln (r0 / r1) \<noteq> 0"
    using assms(1,2) by simp
  have nt: "real_of_int nt - 1 \<noteq> 0"
    using assms(3) by simp
  have "logupq acc r0 r1 nt ni \<noteq> Inl e" for e
  proof
    assume "logupq acc r0 r1 nt ni = Inl e"
    then show False
      using assms ln0 nt unfolding logupq_def Let_def
      by (auto simp: rampfloat_def zerofloat_def randfloat_def getitem_def pyindex_def
          split: sum.splits if_splits prod.splits
          dest!: for_loop_Inl range_bounds length_randfloat_draw)
  qed
  then show ?thesis
    by (cases "logupq acc r0 r1 nt ni") auto
qed

lemma nmoupq_returns:
  assumes "r1 \<noteq> 0" "0 \<le> nt" "0 \<le> ni"
  shows "\<exists>u p q. nmoupq acc r0 r1 nt ni = Inr (u, p, q)"
proof -
  have "nmoupq acc r0 r1 nt ni \<noteq> Inl e" for e
  proof
    assume "nmoupq acc r0 r1 nt ni = Inl e"
    then show False
      using assms unfolding nmoupq_def Let_def
      by (auto simp: rampfloat_def zerofloat_def getitem_def pyindex_def
          split: sum.splits if_splits prod.splits
          dest!: for_loop_Inl range_bounds)
  qed
  then show ?thesis
    by (cases "nmoupq acc r0 r1 nt ni") auto
qed

lemma nmoupq_nonneg:
  assumes "nmoupq acc r0 r1 nt ni = Inr (u, p, q)" "0 < r1" "r1 \<le> 1" "i < length u"
  shows "0 \<le> u ! i"
proof -
  define a where "a = real_of_int ((nt - 1) * (nt - 1)) * (1 / (r1 * r1) - 1)"
  have a: "0 \<le> a"
    unfolding a_def using assms(2,3) by (rule nmoupq_radicand)
  from nmoupq_u [OF assms(1)] obtain ramp where r: "rampfloat 0 1 nt = Inr ramp"
    and u: "u = map sqrt (map (\<lambda>x. x + a) (map (\<lambda>x. x ^ 2) ramp))"
    by (auto simp: a_def)
  have "i < length ramp"
    using assms(4) u by simp
  then have "u ! i = sqrt ((ramp ! i)\<^sup>2 + a)"
    using u by simp
  then show ?thesis
    using a by simp
qed

text \<open>
  Claim C5. With \<open>r0 \<ge> r1 > 0\<close>, every warp curve \<open>u\<close> that \<open>logupq\<close> returns is
  non-decreasing, \<open>u[i+1] \<ge> u[i]\<close> for all valid \<open>i\<close> (and it does return one when
  \<open>nt \<ge> 2\<close> and \<open>ni \<ge> 0\<close>); with \<open>0 < r1 \<le> 1\<close>, every warp curve that \<open>nmoupq\<close> returns
  is non-decreasing, its samples being square roots of non-negative numbers (and it does
  return one when \<open>nt \<ge> 0\<close> and \<open>ni \<ge> 0\<close>).
\<close>

theorem warp_curves_monotone:
  "(0 < r1 \<longrightarrow> r1 \<le> r0 \<longrightarrow>
      (2 \<le> nt \<longrightarrow> 0 \<le> ni \<longrightarrow> (\<exists>u p q. logupq acc r0 r1 nt ni = Inr (u, p, q))) \<and>
      (\<forall>u p q. logupq acc r0 r1 nt ni = Inr (u, p, q) \<longrightarrow>
         (\<forall>i. Suc i < length u \<longrightarrow> u ! i \<le> u ! Suc i))) \<and>
   (0 < s1 \<longrightarrow> s1 \<le> 1 \<longrightarrow>
      (0 \<le> mt \<longrightarrow> 0 \<le> mi \<longrightarrow> (\<exists>u p q. nmoupq acc s0 s1 mt mi = Inr (u, p, q))) \<and>
      (\<forall>u p q. nmoupq acc s0 s1 mt mi = Inr (u, p, q) \<longrightarrow>
         (\<forall>i. Suc i < length u \<longrightarrow> 0 \<le> u ! i \<and> u ! i \<le> u ! Suc i)))"
proof (intro conjI impI allI)
  assume "0 < r1" "r1 \<le> r0" "2 \<le> nt" "0 \<le> ni"
  then show "\<exists>u p q. logupq acc r0 r1 nt ni = Inr (u, p, q)"
    by (rule logupq_returns)
next
  fix u p q i
  assume "0 < r1" "r1 \<le> r0" "logupq acc r0 r1 nt ni = Inr (u, p, q)" "Suc i < length u"
  then show "u ! i \<le> u ! Suc i"
    using logupq_monotone by blast
next
  assume "0 < s1" "0 \<le> mt" "0 \<le> mi"
  then show "\<exists>u p q. nmoupq acc s0 s1 mt mi = Inr (u, p, q)"
    by (intro nmoupq_returns) simp_all
next
  fix u p q i
  assume "0 < s1" "s1 \<le> 1" "nmoupq acc s0 s1 mt mi = Inr (u, p, q)" "Suc i < length u"
  then show "0 \<le> u ! i"
    using nmoupq_nonneg [of acc s0 s1 mt mi u p q i] by simp
next
  fix u p q i
  assume "nmoupq acc s0 s1 mt mi = Inr (u, p, q)" "Suc i < length u"
  then show "u ! i \<le> u ! Suc i"
    by (rule nmoupq_monotone)
qed

text \<open>The first two draws of the generator seeded with 3, and two runs on concrete inputs.\<close>

lemma nextFloat_seed3_first:
  "nextFloat (Random 3) = (12265107 / 16777216, 205774354444513)"
  by (simp add: nextFloat_def next_bits_def Random_def mask_eq_exp_minus_1)

lemma nextFloat_seed3_second:
  "nextFloat 205774354444513 = (9435653 / 16777216, 158303998490072)"
  by (simp add: nextFloat_def next_bits_def mask_eq_exp_minus_1)

lemma logupq_example:
  "logupq accumulate_floor 2 2 3 1 =
     Inr ([0, 2, 4], [(1047045 / 8388608) ^ 5, 0, 0], [0, (1047045 / 8388608) ^ 5, 0])"
  unfolding logupq_def Let_def
  by (simp add: randfloat_def nextFloat_seed3_first nextFloat_seed3_second rampfloat_def
      zerofloat_def range_def getitem_def pyindex_def upt_rec numeral_eq_Suc
      accumulate_floor_def)

lemma nmoupq_example:
  "nmoupq accumulate_floor 0 1 3 1 = Inr ([0, 1, 2], [0, 1, 0], [0, 1, 0])"
  unfolding nmoupq_def Let_def
  by (simp add: rampfloat_def zerofloat_def range_def getitem_def pyindex_def upt_rec
      numeral_eq_Suc accumulate_floor_def)

theorem warp_curves_monotone_witness:
  "logupq accumulate_floor 2 2 3 1 =
     Inr ([0, 2, 4], [(1047045 / 8388608) ^ 5, 0, 0], [0, (1047045 / 8388608) ^ 5, 0]) \<and>
   [0, 2, 4 :: real] ! 1 \<le> [0, 2, 4] ! Suc 1 \<and>
   nmoupq accumulate_floor 0 1 3 1 = Inr ([0, 1, 2], [0, 1, 0], [0, 1, 0]) \<and>
   [0, 1, 2 :: real] ! 1 \<le> [0, 1, 2] ! Suc 1"
proof -
  have h: "(0::real) < 2" "(2::real) \<le> 2" "(2::int) \<le> 3" "(0::int) \<le> 1"
      "(0::real) < 1" "(1::real) \<le> 1" "(0::int) \<le> 3"
    by simp_all
  have i: "Suc 1 < length [0, 2, 4 :: real]" "Suc 1 < length [0, 1, 2 :: real]"
    by simp_all
  from warp_curves_monotone [of 2 2 3 1 accumulate_floor 1 3 1 0] h
  have a: "\<forall>u p q. logupq accumulate_floor 2 2 3 1 = Inr (u, p, q) \<longrightarrow>
        (\<forall>i. Suc i < length u \<longrightarrow> u ! i \<le> u ! Suc i)"
    and b: "\<forall>u p q. nmoupq accumulate_floor 0 1 3 1 = Inr (u, p, q) \<longrightarrow>
        (\<forall>i. Suc i < length u \<longrightarrow> 0 \<le> u ! i \<and> u ! i \<le> u ! Suc i)"
    by blast+
  from a logupq_example i(1) have "[0, 2, 4 :: real] ! 1 \<le> [0, 2, 4] ! Suc 1"
    by blast
  moreover from b nmoupq_example i(2) have "[0, 1, 2 :: real] ! 1 \<le> [0, 1, 2] ! Suc 1"
    by blast
  ultimately show ?thesis
    using logupq_example nmoupq_example by blast
qed

text \<open>
  Claim C4. Every sinc interpolator that the program constructs is made with maximum error
  0.01 and maximum frequency 0.45: in each of the five functions that construct one, the
  only interpolator handed to \<open>accumulate\<close> is the one with these two parameters, so the
  result is the same when \<open>accumulate\<close> is given that interpolator whatever it is passed.
\<close>

theorem sinc_kernel_defaults:
  "logupq acc r0 r1 nt ni =
     logupq (\<lambda>si. acc \<lparr>emax = 1 / 100, fmax = 45 / 100\<rparr>) r0 r1 nt ni \<and>
   logupqOld acc r0 r1 nt ni =
     logupqOld (\<lambda>si. acc \<lparr>emax = 1 / 100, fmax = 45 / 100\<rparr>) r0 r1 nt ni \<and>
   expupq acc r0 r1 nt ni =
     expupq (\<lambda>si. acc \<lparr>emax = 1 / 100, fmax = 45 / 100\<rparr>) r0 r1 nt ni \<and>
   nmoupq acc r0 r1 nt ni =
     nmoupq (\<lambda>si. acc \<lparr>emax = 1 / 100, fmax = 45 / 100\<rparr>) r0 r1 nt ni \<and>
   makeImpulses_warp acc r nt ni =
     makeImpulses_warp (\<lambda>si. acc \<lparr>emax = 1 / 100, fmax = 45 / 100\<rparr>) r nt ni"
  unfolding logupq_def logupqOld_def expupq_def nmoupq_def makeImpulses_warp_def
    fromErrorAndFrequency_def Let_def
  by (intro conjI refl)

lemma randfloat_obj_fresh:
  "0 \<le> n \<Longrightarrow> randfloat_draw (nat n) st = (xs, st') \<Longrightarrow>
   randfloat_obj (length g) n (g @ [st]) = (Inr xs, g @ [st'])"
  by (simp add: randfloat_obj_def load_def)

lemma logupq_heap_eq:
  "\<exists>st. logupq_heap acc r0 r1 nt ni g = (logupq acc r0 r1 nt ni, g @ [st])"
proof (cases "ni < 0")
  case True
  then show ?thesis
    by (simp add: logupq_heap_def logupq_def new_Random_def randfloat_obj_def randfloat_def)
next
  case False
  then have ni: "0 \<le> ni" by simp
  obtain x1 s1 where d1: "randfloat_draw (nat ni) (Random 3) = (x1, s1)"
    by (cases "randfloat_draw (nat ni) (Random 3)")
  obtain x2 s2 where d2: "randfloat_draw (nat ni) s1 = (x2, s2)"
    by (cases "randfloat_draw (nat ni) s1")
  have "logupq_heap acc r0 r1 nt ni g = (logupq acc r0 r1 nt ni, g @ [s2])"
    unfolding logupq_heap_def logupq_def new_Random_def Let_def
    using False
    by (simp add: randfloat_obj_fresh [OF ni d1] randfloat_obj_fresh [OF ni d2]
        randfloat_def d1 d2)
  then show ?thesis ..
qed

text \<open>A draw from a generator that exists already does depend on the state it is in.\<close>

lemma randfloat_obj_ambient:
  "fst (randfloat_obj 0 1 [Random 3]) = Inr [12265107 / 16777216] \<and>
   fst (randfloat_obj 0 1 [205774354444513]) = Inr [9435653 / 16777216]"
  by (simp add: randfloat_obj_def load_def nextFloat_seed3_first nextFloat_seed3_second)

text \<open>
  Claim C10. \<open>logupq\<close> is deterministic: two calls with equal arguments return identical
  triples, whatever generators exist, and in whatever state, when each of the calls is
  made. The call draws only from the generator that it constructs from the seed 3: its
  result is that of \<open>logupq\<close>, where this generator is the only one, and the generators
  that existed before the call are left as they were.
\<close>

theorem logupq_deterministic:
  assumes "r0 = r0'" "r1 = r1'" "nt = nt'" "ni = ni'"
  shows "fst (logupq_heap acc r0 r1 nt ni g) = fst (logupq_heap acc r0' r1' nt' ni' g') \<and>
         fst (logupq_heap acc r0 r1 nt ni g) = logupq acc r0 r1 nt ni \<and>
         take (length g) (snd (logupq_heap acc r0 r1 nt ni g)) = g"
proof -
  obtain st where a: "logupq_heap acc r0 r1 nt ni g = (logupq acc r0 r1 nt ni, g @ [st])"
    using logupq_heap_eq by blast
  obtain st' where b: "logupq_heap acc r0 r1 nt ni g' = (logupq acc r0 r1 nt ni, g' @ [st'])"
    using logupq_heap_eq by blast
  show ?thesis
    using assms a b by simp
qed

theorem logupq_deterministic_witness:
  "fst (logupq_heap accumulate_floor 2 2 3 1 [205774354444513, 42]) =
     Inr ([0, 2, 4], [(1047045 / 8388608) ^ 5, 0, 0], [0, (1047045 / 8388608) ^ 5, 0]) \<and>
   fst (logupq_heap accumulate_floor 2 2 3 1 []) =
     Inr ([0, 2, 4], [(1047045 / 8388608) ^ 5, 0, 0], [0, (1047045 / 8388608) ^ 5, 0]) \<and>
   take 2 (snd (logupq_heap accumulate_floor 2 2 3 1 [205774354444513, 42])) =
     [205774354444513, 42]"
proof -
  have h: "(2::real) = 2" "(3::int) = 3" "(1::int) = 1"
    by simp_all
  have l: "length [205774354444513, 42 :: 64 word] = 2"
    by simp
  from logupq_deterministic [OF h(1) h(1) h(2) h(3), of accumulate_floor
      "[205774354444513, 42]" "[]"]
  have d: "fst (logupq_heap accumulate_floor 2 2 3 1 [205774354444513, 42]) =
        fst (logupq_heap accumulate_floor 2 2 3 1 [])"
      "fst (logupq_heap accumulate_floor 2 2 3 1 [205774354444513, 42]) =
        logupq accumulate_floor 2 2 3 1"
      "take (length [205774354444513, 42 :: 64 word])
         (snd (logupq_heap accumulate_floor 2 2 3 1 [205774354444513, 42])) =
        [205774354444513, 42]"
    by blast+
  from d(1,2) logupq_example
  have "fst (logupq_heap accumulate_floor 2 2 3 1 [205774354444513, 42]) =
        Inr ([0, 2, 4], [(1047045 / 8388608) ^ 5, 0, 0], [0, (1047045 / 8388608) ^ 5, 0])"
      "fst (logupq_heap accumulate_floor 2 2 3 1 []) =
        Inr ([0, 2, 4], [(1047045 / 8388608) ^ 5, 0, 0], [0, (1047045 / 8388608) ^ 5, 0])"
    by simp_all
  with d(3) [unfolded l] show ?thesis
    by blast
qed

section \<open>Proofs: the core operators\<close>

lemma length_convolve: "length (convolve h x) = length x"
  by (simp add: convolve_def)

lemma sample_at_lincomb:
  "length x = length y \<Longrightarrow>
   sample_at (lincomb \<alpha> x \<beta> y) j = \<alpha> * sample_at x j + \<beta> * sample_at y j"
  by (auto simp: sample_at_def lincomb_def)

lemma length_lincomb: "length (lincomb \<alpha> x \<beta> y) = min (length x) (length y)"
  by (simp add: lincomb_def)

lemma sum_list_lincomb:
  fixes c X Y :: "nat \<Rightarrow> real"
  shows "(\<Sum>k\<leftarrow>ks. c k * (\<alpha> * X k + \<beta> * Y k)) =
         \<alpha> * (\<Sum>k\<leftarrow>ks. c k * X k) + \<beta> * (\<Sum>k\<leftarrow>ks. c k * Y k)"
  by (induction ks) (simp_all add: algebra_simps)

text \<open>
  Claim C7. The convolution operator is linear in its signal argument: for signals \<open>x\<close>
  and \<open>y\<close> of equal length and scalars \<open>\<alpha>\<close>, \<open>\<beta>\<close>, convolving \<open>\<alpha>x + \<beta>y\<close> gives
  \<open>\<alpha>\<close> times the convolution of \<open>x\<close> plus \<open>\<beta>\<close> times that of \<open>y\<close> (in exact arithmetic).
\<close>

theorem convolve_linear:
  assumes "length x = length y"
  shows "convolve h (lincomb \<alpha> x \<beta> y) = lincomb \<alpha> (convolve h x) \<beta> (convolve h y)"
proof (rule nth_equalityI)
  show "length (convolve h (lincomb \<alpha> x \<beta> y)) =
      length (lincomb \<alpha> (convolve h x) \<beta> (convolve h y))"
    using assms by (simp add: length_convolve lincomb_def)
next
  fix i assume "i < length (convolve h (lincomb \<alpha> x \<beta> y))"
  then have i: "i < length x" "i < length y"
    using assms by (simp_all add: length_convolve lincomb_def)
  have "convolve h (lincomb \<alpha> x \<beta> y) ! i =
      (\<Sum>k\<leftarrow>[0..<length (coeff h)]. coeff h ! k *
         (\<alpha> * sample_at x (int i - int k + offset h) +
          \<beta> * sample_at y (int i - int k + offset h)))"
    using i assms by (simp add: convolve_def sample_at_lincomb length_lincomb)
  also have "\<dots> = \<alpha> * (convolve h x ! i) + \<beta> * (convolve h y ! i)"
    using i by (simp add: sum_list_lincomb convolve_def)
  also have "\<dots> = lincomb \<alpha> (convolve h x) \<beta> (convolve h y) ! i"
    using i by (simp add: lincomb_def length_convolve)
  finally show "convolve h (lincomb \<alpha> x \<beta> y) ! i =
      lincomb \<alpha> (convolve h x) \<beta> (convolve h y) ! i" .
qed


theorem convolve_linear_witness:
  "length [1, 2, 4 :: real] = length [0, 1, 0 :: real] \<and>
   convolve \<lparr>coeff = [1, - 1], offset = 0\<rparr> (lincomb 2 [1, 2, 4] 3 [0, 1, 0]) = [2, 5, 1] \<and>
   lincomb 2 (convolve \<lparr>coeff = [1, - 1], offset = 0\<rparr> [1, 2, 4]) 3
     (convolve \<lparr>coeff = [1, - 1], offset = 0\<rparr> [0, 1, 0]) = [2, 5, 1]"
proof -
  have h: "length [1, 2, 4 :: real] = length [0, 1, 0 :: real]"
    by simp
  have a: "convolve \<lparr>coeff = [1, - 1], offset = 0\<rparr> (lincomb 2 [1, 2, 4] 3 [0, 1, 0]) = [2, 5, 1]"
    by (simp add: convolve_def lincomb_def sample_at_def upt_rec)
  from convolve_linear [OF h, of "\<lparr>coeff = [1, - 1], offset = 0\<rparr>" 2 3] a h show ?thesis
    by simp
qed

text \<open>
  Claim C6. The resampling operator returns a signal as long as the warp function, whatever
  the length of the input signal: an 852-sample trace warped by a 501-sample warp is a
  501-sample trace.
\<close>

theorem resample_length: "length (resample interp warp x) = length warp"
  by (simp add: resample_def)

end
